theory Spec2Isabelle
  imports Main
begin

section \<open>The lock-protected deque of \<^verbatim>\<open>src/utils/spx_queue.h\<close>\<close>

text \<open>
  \<^verbatim>\<open>spx::SpxQueue<T, Lock>\<close> has two members: \<^verbatim>\<open>std::vector<T> data_\<close> and
  \<^verbatim>\<open>mutable Lock mutex_\<close>. The vector is a list, front first. The guard is the
  boolean "held". The element type is a type variable: the class constrains \<^verbatim>\<open>T\<close> by
  nothing but movability.

  The model is of one thread of control. A call that acquires a guard which is already
  held can never be served, for no other thread will release it: such a call does not
  return, and its value is \<open>None\<close>. Every member function therefore returns an option; the
  \<open>Some\<close> carries what the C++ returns together with the object after the call.

  Lengths are natural numbers: \<^verbatim>\<open>size_type\<close> is the vector's own unsigned type and a vector
  never holds more than \<^verbatim>\<open>max_size()\<close> elements, so the count never wraps. Growing the
  vector is taken to succeed (no \<^verbatim>\<open>bad_alloc\<close>, no \<^verbatim>\<open>length_error\<close>).
\<close>

record 'a SpxQueue =
  data :: "'a list"
  mutex :: bool

text \<open>\<^verbatim>\<open>SpxQueue() = default\<close> with the member initialisers \<^verbatim>\<open>data_{}\<close>, \<^verbatim>\<open>mutex_{}\<close>.\<close>

definition SpxQueue_default :: "'a SpxQueue" where
  "SpxQueue_default = \<lparr>data = [], mutex = False\<rparr>"

text \<open>
  \<^verbatim>\<open>std::lock_guard lock(mutex_)\<close> acquires in its constructor and releases when the scope
  is left, on every return path.
\<close>

definition lock :: "'a SpxQueue \<Rightarrow> 'a SpxQueue option" where
  "lock q = (if mutex q then None else Some (q\<lparr>mutex := True\<rparr>))"

definition unlock :: "'a SpxQueue \<Rightarrow> 'a SpxQueue" where
  "unlock q = q\<lparr>mutex := False\<rparr>"

definition push :: "'a SpxQueue \<Rightarrow> 'a \<Rightarrow> 'a SpxQueue option" where
  "push q v =
     (case lock q of
        None \<Rightarrow> None
      | Some q1 \<Rightarrow> Some (unlock (q1\<lparr>data := data q1 @ [v]\<rparr>)))"

definition pop :: "'a SpxQueue \<Rightarrow> ('a option \<times> 'a SpxQueue) option" where
  "pop q =
     (case lock q of
        None \<Rightarrow> None
      | Some q1 \<Rightarrow>
          if data q1 = [] then Some (None, unlock q1)
          else
            let front = hd (data q1);
                q2 = q1\<lparr>data := tl (data q1)\<rparr>
            in Some (Some front, unlock q2))"

definition steal :: "'a SpxQueue \<Rightarrow> ('a option \<times> 'a SpxQueue) option" where
  "steal q =
     (case lock q of
        None \<Rightarrow> None
      | Some q1 \<Rightarrow>
          if data q1 = [] then Some (None, unlock q1)
          else
            let back = last (data q1);
                q2 = q1\<lparr>data := butlast (data q1)\<rparr>
            in Some (Some back, unlock q2))"

text \<open>
  \<^verbatim>\<open>empty\<close> and \<^verbatim>\<open>size\<close> are \<^verbatim>\<open>const\<close>, but the guard is \<^verbatim>\<open>mutable\<close>: they lock and unlock
  like the others, so they return the object too.
\<close>

definition empty :: "'a SpxQueue \<Rightarrow> (bool \<times> 'a SpxQueue) option" where
  "empty q =
     (case lock q of
        None \<Rightarrow> None
      | Some q1 \<Rightarrow> let is_empty = (data q1 = []) in Some (is_empty, unlock q1))"

definition size_q :: "'a SpxQueue \<Rightarrow> (nat \<times> 'a SpxQueue) option" where
  "size_q q =
     (case lock q of
        None \<Rightarrow> None
      | Some q1 \<Rightarrow> let sz = length (data q1) in Some (sz, unlock q1))"

definition clear :: "'a SpxQueue \<Rightarrow> 'a SpxQueue option" where
  "clear q =
     (case lock q of
        None \<Rightarrow> None
      | Some q1 \<Rightarrow> Some (unlock (q1\<lparr>data := []\<rparr>)))"

section \<open>Sequences of calls\<close>

text \<open>
  A client that pushes the values of a list one after the other, and a client that issues
  a list of removal calls and collects what each returns. Both stop with \<open>None\<close> as soon
  as one call does not return.
\<close>

fun push_all :: "'a SpxQueue \<Rightarrow> 'a list \<Rightarrow> 'a SpxQueue option" where
  "push_all q [] = Some q"
| "push_all q (v # vs) = (case push q v of None \<Rightarrow> None | Some q' \<Rightarrow> push_all q' vs)"

datatype call = Pop | Steal

fun run_call :: "call \<Rightarrow> 'a SpxQueue \<Rightarrow> ('a option \<times> 'a SpxQueue) option" where
  "run_call Pop q = pop q"
| "run_call Steal q = steal q"

fun run_calls :: "'a SpxQueue \<Rightarrow> call list \<Rightarrow> ('a option list \<times> 'a SpxQueue) option" where
  "run_calls q [] = Some ([], q)"
| "run_calls q (c # cs) =
     (case run_call c q of
        None \<Rightarrow> None
      | Some (r, q') \<Rightarrow>
          (case run_calls q' cs of
             None \<Rightarrow> None
           | Some (rs, q'') \<Rightarrow> Some (r # rs, q'')))"

text \<open>The results of the calls of one kind, in the order in which they were made.\<close>

fun results_of :: "call \<Rightarrow> call list \<Rightarrow> 'r list \<Rightarrow> 'r list" where
  "results_of k (c # cs) (r # rs) =
     (if c = k then r # results_of k cs rs else results_of k cs rs)"
| "results_of k cs rs = []"

fun calls_of :: "call \<Rightarrow> call list \<Rightarrow> nat" where
  "calls_of k [] = 0"
| "calls_of k (c # cs) = (if c = k then Suc (calls_of k cs) else calls_of k cs)"

section \<open>Two instances: the move operations\<close>

text \<open>
  The move constructor and the move assignment take a reference to a second instance and
  compare addresses, so they are modelled on a store of instances. A C++ reference always
  designates an object: the store is total.
\<close>

type_synonym addr = nat

type_synonym 'a heap = "addr \<Rightarrow> 'a SpxQueue"

text \<open>
  \<^verbatim>\<open>std::lock(lock, other_lock)\<close> returns once both guards are held. With one thread, that
  is when both were free and are two guards; locking one guard twice never returns.
\<close>

definition lock_both :: "'a heap \<Rightarrow> addr \<Rightarrow> addr \<Rightarrow> 'a heap option" where
  "lock_both h a b =
     (case lock (h a) of
        None \<Rightarrow> None
      | Some qa \<Rightarrow>
          let h1 = h(a := qa)
          in (case lock (h1 b) of
                None \<Rightarrow> None
              | Some qb \<Rightarrow> Some (h1(b := qb))))"

text \<open>
  \<^verbatim>\<open>data_ = std::move(other.data_)\<close> is the move assignment of \<^verbatim>\<open>std::vector\<close> with the
  default allocator: the destination takes over the source's buffer, its former elements
  are destroyed, and the source is left without elements. (The C++ standard words the
  state of the source as "valid but unspecified"; libstdc++, libc++ and the MSVC library
  all leave it empty, and the model follows them.)
\<close>

definition vector_move_assign :: "'a heap \<Rightarrow> addr \<Rightarrow> addr \<Rightarrow> 'a heap" where
  "vector_move_assign h dst src =
     (let xs = data (h src);
          h1 = h(dst := (h dst)\<lparr>data := xs\<rparr>)
      in h1(src := (h1 src)\<lparr>data := []\<rparr>))"

text \<open>
  The two \<^verbatim>\<open>unique_lock\<close>s release at the end of the scope, \<^verbatim>\<open>other_lock\<close> first.
\<close>

definition unlock_both :: "'a heap \<Rightarrow> addr \<Rightarrow> addr \<Rightarrow> 'a heap" where
  "unlock_both h this other =
     (let h1 = h(other := unlock (h other))
      in h1(this := unlock (h1 this)))"

text \<open>
  \<^verbatim>\<open>SpxQueue(SpxQueue&& other)\<close>: the members of the new object at \<open>this\<close> are initialised
  by their default initialisers before the body runs. The result is the store.
\<close>

definition move_construct :: "'a heap \<Rightarrow> addr \<Rightarrow> addr \<Rightarrow> 'a heap option" where
  "move_construct h this other =
     (let h0 = h(this := SpxQueue_default)
      in (case lock_both h0 this other of
            None \<Rightarrow> None
          | Some h1 \<Rightarrow> Some (unlock_both (vector_move_assign h1 this other) this other)))"

text \<open>\<^verbatim>\<open>operator=(SpxQueue&& other)\<close> returns \<^verbatim>\<open>*this\<close>: the store and the address.\<close>

definition move_assign :: "'a heap \<Rightarrow> addr \<Rightarrow> addr \<Rightarrow> ('a heap \<times> addr) option" where
  "move_assign h this other =
     (if this \<noteq> other then
        (case lock_both h this other of
           None \<Rightarrow> None
         | Some h1 \<Rightarrow>
             Some (unlock_both (vector_move_assign h1 this other) this other, this))
      else Some (h, this))"

section \<open>Basic facts\<close>

lemma push_free: "\<not> mutex q \<Longrightarrow> push q v = Some (q\<lparr>data := data q @ [v]\<rparr>)"
  by (cases q) (simp add: push_def lock_def unlock_def)

lemma pop_free:
  "\<not> mutex q \<Longrightarrow>
   pop q = Some (if data q = [] then (None, q) else (Some (hd (data q)), q\<lparr>data := tl (data q)\<rparr>))"
  by (cases q) (simp add: pop_def lock_def unlock_def)

lemma steal_free:
  "\<not> mutex q \<Longrightarrow>
   steal q =
     Some (if data q = [] then (None, q)
           else (Some (last (data q)), q\<lparr>data := butlast (data q)\<rparr>))"
  by (cases q) (simp add: steal_def lock_def unlock_def)

lemma empty_free: "\<not> mutex q \<Longrightarrow> empty q = Some (data q = [], q)"
  by (cases q) (simp add: empty_def lock_def unlock_def)

lemma size_free: "\<not> mutex q \<Longrightarrow> size_q q = Some (length (data q), q)"
  by (cases q) (simp add: size_q_def lock_def unlock_def)

lemma clear_free: "\<not> mutex q \<Longrightarrow> clear q = Some (q\<lparr>data := []\<rparr>)"
  by (cases q) (simp add: clear_def lock_def unlock_def)

lemma push_all_free: "\<not> mutex q \<Longrightarrow> push_all q vs = Some (q\<lparr>data := data q @ vs\<rparr>)"
  by (induction vs arbitrary: q) (simp_all add: push_free)

text \<open>
  A call that returns leaves the guard free. So in a run of one thread the guard is free
  whenever a member function is entered: the hypothesis \<open>\<not> mutex q\<close> of the theorems
  below holds of every state such a run reaches.
\<close>

lemma guard_free_after:
  "push q v = Some q' \<Longrightarrow> \<not> mutex q'"
  "pop q = Some (r, q') \<Longrightarrow> \<not> mutex q'"
  "steal q = Some (r, q') \<Longrightarrow> \<not> mutex q'"
  "empty q = Some (b, q') \<Longrightarrow> \<not> mutex q'"
  "size_q q = Some (n, q') \<Longrightarrow> \<not> mutex q'"
  "clear q = Some q' \<Longrightarrow> \<not> mutex q'"
  by (auto simp: push_def pop_def steal_def empty_def size_q_def clear_def lock_def
      unlock_def Let_def split: if_splits)

lemma default_free: "\<not> mutex SpxQueue_default" "data SpxQueue_default = []"
  by (simp_all add: SpxQueue_default_def)

lemma default_data: "SpxQueue_default\<lparr>data := []\<rparr> = SpxQueue_default"
  by (simp add: SpxQueue_default_def)

lemma pushed: "push_all SpxQueue_default vs = Some (SpxQueue_default\<lparr>data := vs\<rparr>)"
  by (simp add: push_all_free default_free)

section \<open>Runs of removal calls\<close>

lemma run_pops:
  "\<not> mutex q \<Longrightarrow> data q = xs \<Longrightarrow>
   run_calls q (replicate (length xs) Pop) = Some (map Some xs, q\<lparr>data := []\<rparr>)"
proof (induction xs arbitrary: q)
  case Nil
  then show ?case by simp
next
  case (Cons x xs)
  have "pop q = Some (Some x, q\<lparr>data := xs\<rparr>)"
    using Cons.prems by (simp add: pop_free)
  moreover have "run_calls (q\<lparr>data := xs\<rparr>) (replicate (length xs) Pop)
      = Some (map Some xs, q\<lparr>data := xs\<rparr>\<lparr>data := []\<rparr>)"
    using Cons.prems by (intro Cons.IH) simp_all
  ultimately show ?case by simp
qed

lemma run_steals:
  "\<not> mutex q \<Longrightarrow> data q = xs \<Longrightarrow>
   run_calls q (replicate (length xs) Steal) = Some (map Some (rev xs), q\<lparr>data := []\<rparr>)"
proof (induction xs arbitrary: q rule: rev_induct)
  case Nil
  then show ?case by simp
next
  case (snoc x xs)
  have "steal q = Some (Some x, q\<lparr>data := xs\<rparr>)"
    using snoc.prems by (simp add: steal_free)
  moreover have "run_calls (q\<lparr>data := xs\<rparr>) (replicate (length xs) Steal)
      = Some (map Some (rev xs), q\<lparr>data := xs\<rparr>\<lparr>data := []\<rparr>)"
    using snoc.prems by (intro snoc.IH) simp_all
  ultimately show ?case by simp
qed

lemma calls_of_le: "calls_of k cs \<le> length cs"
  by (induction cs) auto

lemma calls_of_total: "calls_of Pop cs + calls_of Steal cs = length cs"
proof (induction cs)
  case Nil show ?case by simp
next
  case (Cons c cs) then show ?case by (cases c) auto
qed

lemma run_calls_free:
  "\<not> mutex q \<Longrightarrow> length cs \<le> length (data q) \<Longrightarrow>
   \<exists>rs. run_calls q cs =
           Some (rs, q\<lparr>data := drop (calls_of Pop cs)
                                 (take (length (data q) - calls_of Steal cs) (data q))\<rparr>)
       \<and> length rs = length cs
       \<and> results_of Pop cs rs = map Some (take (calls_of Pop cs) (data q))
       \<and> results_of Steal cs rs =
           map Some (rev (drop (length (data q) - calls_of Steal cs) (data q)))"
proof (induction cs arbitrary: q)
  case Nil
  then show ?case by (cases q) simp
next
  case (Cons c cs)
  let ?xs = "data q"
  have kle: "calls_of Pop cs \<le> length cs" and jle: "calls_of Steal cs \<le> length cs"
    by (rule calls_of_le)+
  show ?case
  proof (cases c)
    case Pop
    from Cons.prems obtain x xs' where xs: "?xs = x # xs'"
      by (cases ?xs) auto
    let ?q1 = "q\<lparr>data := xs'\<rparr>"
    have step: "pop q = Some (Some x, ?q1)"
      using Cons.prems xs by (simp add: pop_free)
    have "\<not> mutex ?q1" and "length cs \<le> length (data ?q1)"
      using Cons.prems xs by simp_all
    from Cons.IH [OF this] obtain rs where
      run: "run_calls ?q1 cs =
              Some (rs, ?q1\<lparr>data := drop (calls_of Pop cs)
                                   (take (length xs' - calls_of Steal cs) xs')\<rparr>)"
      and len: "length rs = length cs"
      and pops: "results_of Pop cs rs = map Some (take (calls_of Pop cs) xs')"
      and steals: "results_of Steal cs rs =
                     map Some (rev (drop (length xs' - calls_of Steal cs) xs'))"
      by auto
    have suc: "Suc (length xs') - calls_of Steal cs = Suc (length xs' - calls_of Steal cs)"
      using jle Cons.prems xs by simp
    have "run_calls q (c # cs) =
            Some (Some x # rs, q\<lparr>data := drop (calls_of Pop (c # cs))
                     (take (length ?xs - calls_of Steal (c # cs)) ?xs)\<rparr>)"
      using step run Pop xs suc by simp
    moreover have "results_of Pop (c # cs) (Some x # rs) =
                     map Some (take (calls_of Pop (c # cs)) ?xs)"
      using pops Pop xs by simp
    moreover have "results_of Steal (c # cs) (Some x # rs) =
                     map Some (rev (drop (length ?xs - calls_of Steal (c # cs)) ?xs))"
      using steals Pop xs suc by simp
    ultimately show ?thesis using len by simp
  next
    case Steal
    from Cons.prems obtain ys y where xs: "?xs = ys @ [y]"
      by (cases ?xs rule: rev_cases) auto
    let ?q1 = "q\<lparr>data := ys\<rparr>"
    have step: "steal q = Some (Some y, ?q1)"
      using Cons.prems xs by (simp add: steal_free)
    have "\<not> mutex ?q1" and "length cs \<le> length (data ?q1)"
      using Cons.prems xs by simp_all
    from Cons.IH [OF this] obtain rs where
      run: "run_calls ?q1 cs =
              Some (rs, ?q1\<lparr>data := drop (calls_of Pop cs)
                                   (take (length ys - calls_of Steal cs) ys)\<rparr>)"
      and len: "length rs = length cs"
      and pops: "results_of Pop cs rs = map Some (take (calls_of Pop cs) ys)"
      and steals: "results_of Steal cs rs =
                     map Some (rev (drop (length ys - calls_of Steal cs) ys))"
      by auto
    have kys: "calls_of Pop cs \<le> length ys"
      using kle Cons.prems xs by simp
    have "run_calls q (c # cs) =
            Some (Some y # rs, q\<lparr>data := drop (calls_of Pop (c # cs))
                     (take (length ?xs - calls_of Steal (c # cs)) ?xs)\<rparr>)"
      using step run Steal xs by simp
    moreover have "results_of Pop (c # cs) (Some y # rs) =
                     map Some (take (calls_of Pop (c # cs)) ?xs)"
      using pops Steal xs kys by simp
    moreover have "results_of Steal (c # cs) (Some y # rs) =
                     map Some (rev (drop (length ?xs - calls_of Steal (c # cs)) ?xs))"
      using steals Steal xs by simp
    ultimately show ?thesis using len by simp
  qed
qed

section \<open>The move operations on two distinct instances\<close>

lemma move_construct_free:
  "this \<noteq> other \<Longrightarrow> \<not> mutex (h other) \<Longrightarrow>
   move_construct h this other =
     Some (h(this := \<lparr>data = data (h other), mutex = False\<rparr>,
             other := (h other)\<lparr>data := []\<rparr>))"
  by (cases "h other")
     (auto simp: move_construct_def lock_both_def lock_def unlock_both_def unlock_def
        vector_move_assign_def SpxQueue_default_def Let_def fun_upd_twist)

lemma move_assign_free:
  "this \<noteq> other \<Longrightarrow> \<not> mutex (h this) \<Longrightarrow> \<not> mutex (h other) \<Longrightarrow>
   move_assign h this other =
     Some (h(this := (h this)\<lparr>data := data (h other)\<rparr>,
             other := (h other)\<lparr>data := []\<rparr>), this)"
  by (cases "h other"; cases "h this")
     (auto simp: move_assign_def lock_both_def lock_def unlock_both_def unlock_def
        vector_move_assign_def Let_def fun_upd_twist)

text \<open>
  Without the address test the joint acquisition would meet one guard twice and the call
  would not return: the test in the move assignment is what its self-assignment rests on.
\<close>

lemma lock_both_same: "lock_both h a a = None"
  by (simp add: lock_both_def lock_def Let_def)

section \<open>The properties\<close>

text \<open>
  C1 (FIFO): push the values \<open>vs\<close>, in order, into a freshly constructed queue; then as
  many calls of \<^verbatim>\<open>pop\<close> as there are values all return, the i-th one with the i-th value
  pushed, and they leave the queue as a freshly constructed one is.
\<close>

theorem fifo_pops:
  "Option.bind (push_all SpxQueue_default vs) (\<lambda>q. run_calls q (replicate (length vs) Pop))
     = Some (map Some vs, SpxQueue_default)"
proof -
  let ?q = "SpxQueue_default\<lparr>data := vs\<rparr> :: 'a SpxQueue"
  have "run_calls ?q (replicate (length vs) Pop) = Some (map Some vs, ?q\<lparr>data := []\<rparr>)"
    by (rule run_pops) (simp_all add: default_free)
  then show ?thesis by (simp add: pushed default_data)
qed

text \<open>
  C2 (LIFO steal): after the same pushes, as many calls of \<^verbatim>\<open>steal\<close> as there are values
  all return, with the values in the reverse of the order in which they were pushed, and
  they leave the queue as a freshly constructed one is.
\<close>

theorem lifo_steals:
  "Option.bind (push_all SpxQueue_default vs) (\<lambda>q. run_calls q (replicate (length vs) Steal))
     = Some (map Some (rev vs), SpxQueue_default)"
proof -
  let ?q = "SpxQueue_default\<lparr>data := vs\<rparr> :: 'a SpxQueue"
  have "run_calls ?q (replicate (length vs) Steal) = Some (map Some (rev vs), ?q\<lparr>data := []\<rparr>)"
    by (rule run_steals) (simp_all add: default_free)
  then show ?thesis by (simp add: pushed default_data)
qed

text \<open>
  C3 (mixed ends): push \<open>vs\<close> into a freshly constructed queue, then make any sequence
  \<open>cs\<close> of \<^verbatim>\<open>pop\<close> and \<^verbatim>\<open>steal\<close> calls, as many as there are values. Every call returns
  and the queue ends empty. With \<open>k\<close> the number of pops among the calls, the pops
  return, in the order they were made, the first \<open>k\<close> values in the order pushed, and
  the steals return the remaining values, last pushed first. The two parts split \<open>vs\<close>
  at \<open>k\<close>, so each pushed position is returned by exactly one call.
\<close>

theorem mixed_drain:
  assumes "length cs = length vs"
  shows "\<exists>rs. Option.bind (push_all SpxQueue_default vs) (\<lambda>q. run_calls q cs)
                = Some (rs, SpxQueue_default)
           \<and> length rs = length vs
           \<and> results_of Pop cs rs = map Some (take (calls_of Pop cs) vs)
           \<and> results_of Steal cs rs = map Some (rev (drop (calls_of Pop cs) vs))
           \<and> calls_of Pop cs + calls_of Steal cs = length vs"
proof -
  let ?q = "SpxQueue_default\<lparr>data := vs\<rparr> :: 'a SpxQueue"
  let ?k = "calls_of Pop cs" and ?j = "calls_of Steal cs"
  have tot: "?k + ?j = length vs"
    using assms by (simp add: calls_of_total)
  then have nj: "length vs - ?j = ?k" by simp
  have "\<not> mutex ?q" and "length cs \<le> length (data ?q)"
    using assms by (simp_all add: default_free)
  from run_calls_free [OF this] obtain rs where
    run: "run_calls ?q cs = Some (rs, ?q\<lparr>data := drop ?k (take (length vs - ?j) vs)\<rparr>)"
    and len: "length rs = length cs"
    and pops: "results_of Pop cs rs = map Some (take ?k vs)"
    and steals: "results_of Steal cs rs = map Some (rev (drop (length vs - ?j) vs))"
    by auto
  have "Option.bind (push_all SpxQueue_default vs) (\<lambda>q. run_calls q cs)
          = Some (rs, SpxQueue_default)"
    using run nj by (simp add: pushed default_data)
  then show ?thesis using len pops steals tot nj assms by auto
qed

theorem mixed_drain_witness:
  "length [Pop, Steal, Steal, Pop] = length [10, 20, 30, 40 :: nat] \<and>
   Option.bind (push_all SpxQueue_default [10, 20, 30, 40 :: nat])
       (\<lambda>q. run_calls q [Pop, Steal, Steal, Pop])
     = Some ([Some 10, Some 40, Some 30, Some 20], SpxQueue_default) \<and>
   results_of Pop [Pop, Steal, Steal, Pop] [Some 10, Some 40, Some 30, Some (20 :: nat)]
     = [Some 10, Some 20] \<and>
   results_of Steal [Pop, Steal, Steal, Pop] [Some 10, Some 40, Some 30, Some (20 :: nat)]
     = [Some 40, Some 30]"
proof -
  let ?cs = "[Pop, Steal, Steal, Pop]" and ?vs = "[10, 20, 30, 40 :: nat]"
  have run: "Option.bind (push_all SpxQueue_default ?vs) (\<lambda>q. run_calls q ?cs)
               = Some ([Some 10, Some 40, Some 30, Some 20], SpxQueue_default)"
    by (simp add: push_def pop_def steal_def lock_def unlock_def SpxQueue_default_def)
  have len: "length ?cs = length ?vs" by simp
  from mixed_drain [OF len] obtain rs where
    "Option.bind (push_all SpxQueue_default ?vs) (\<lambda>q. run_calls q ?cs)
       = Some (rs, SpxQueue_default)"
    and "results_of Pop ?cs rs = map Some (take (calls_of Pop ?cs) ?vs)"
    and "results_of Steal ?cs rs = map Some (rev (drop (calls_of Pop ?cs) ?vs))"
    by blast
  with run len show ?thesis by simp
qed

text \<open>
  C4 (empty on empty): on a queue without elements whose guard is free, \<^verbatim>\<open>pop\<close> and
  \<^verbatim>\<open>steal\<close> return the absent result and leave the object as it was, \<^verbatim>\<open>empty\<close> returns
  true and \<^verbatim>\<open>size\<close> returns zero. All four return: the empty container is not a failure.
\<close>

theorem empty_on_empty:
  "data q = [] \<Longrightarrow> \<not> mutex q \<Longrightarrow>
   pop q = Some (None, q) \<and> steal q = Some (None, q) \<and>
   empty q = Some (True, q) \<and> size_q q = Some (0, q)"
  by (simp add: pop_free steal_free empty_free size_free)

theorem empty_on_empty_witness:
  "data (SpxQueue_default :: nat SpxQueue) = [] \<and>
   \<not> mutex (SpxQueue_default :: nat SpxQueue) \<and>
   pop (SpxQueue_default :: nat SpxQueue) = Some (None, SpxQueue_default) \<and>
   steal (SpxQueue_default :: nat SpxQueue) = Some (None, SpxQueue_default) \<and>
   empty (SpxQueue_default :: nat SpxQueue) = Some (True, SpxQueue_default) \<and>
   size_q (SpxQueue_default :: nat SpxQueue) = Some (0, SpxQueue_default)"
  using empty_on_empty [of "SpxQueue_default :: nat SpxQueue"]
  by (simp add: SpxQueue_default_def)

text \<open>
  C5 (push): on any queue whose guard is free, \<^verbatim>\<open>push\<close> returns, the new sequence is the
  old one with the value appended at the back, and \<^verbatim>\<open>size\<close> after the call is \<^verbatim>\<open>size\<close>
  before it plus one.
\<close>

theorem push_grows_by_one:
  "\<not> mutex q \<Longrightarrow>
   \<exists>q' n. push q v = Some q' \<and> data q' = data q @ [v] \<and> \<not> mutex q' \<and>
          map_option fst (size_q q) = Some n \<and>
          map_option fst (size_q q') = Some (n + 1)"
  by (simp add: push_free size_free)

theorem push_grows_by_one_witness:
  "\<not> mutex \<lparr>data = [1, 2 :: nat], mutex = False\<rparr> \<and>
   push \<lparr>data = [1, 2 :: nat], mutex = False\<rparr> 3 = Some \<lparr>data = [1, 2, 3], mutex = False\<rparr> \<and>
   map_option fst (size_q \<lparr>data = [1, 2 :: nat], mutex = False\<rparr>) = Some 2 \<and>
   map_option fst (size_q \<lparr>data = [1, 2, 3 :: nat], mutex = False\<rparr>) = Some 3"
  using push_grows_by_one [of "\<lparr>data = [1, 2 :: nat], mutex = False\<rparr>" 3]
  by (simp add: push_def size_q_def lock_def unlock_def)

text \<open>
  C6 (clear): on any queue whose guard is free, \<^verbatim>\<open>clear\<close> returns and \<^verbatim>\<open>size\<close> is then
  zero, whatever the queue held; clearing again changes nothing; and \<^verbatim>\<open>clear\<close> on a
  queue that is already empty returns the very same state.
\<close>

theorem clear_idempotent:
  "\<not> mutex q \<Longrightarrow>
   clear q = Some (q\<lparr>data := []\<rparr>) \<and>
   size_q (q\<lparr>data := []\<rparr>) = Some (0, q\<lparr>data := []\<rparr>) \<and>
   clear (q\<lparr>data := []\<rparr>) = Some (q\<lparr>data := []\<rparr>) \<and>
   (data q = [] \<longrightarrow> clear q = Some q)"
  by (cases q) (simp add: clear_free size_free)

theorem clear_idempotent_witness:
  "\<not> mutex \<lparr>data = [1, 2 :: nat], mutex = False\<rparr> \<and>
   clear \<lparr>data = [1, 2 :: nat], mutex = False\<rparr> = Some SpxQueue_default \<and>
   size_q (SpxQueue_default :: nat SpxQueue) = Some (0, SpxQueue_default) \<and>
   data (SpxQueue_default :: nat SpxQueue) = [] \<and>
   clear (SpxQueue_default :: nat SpxQueue) = Some SpxQueue_default"
  using clear_idempotent [of "\<lparr>data = [1, 2 :: nat], mutex = False\<rparr>"]
    clear_idempotent [of "SpxQueue_default :: nat SpxQueue"]
  by (simp add: SpxQueue_default_def)

text \<open>
  C7 (move transfers exactly once): let A (at \<open>a\<close>) and B (at \<open>b\<close>) be two distinct
  instances, A with its guard free. Move-constructing B from A returns; then B holds A's
  former sequence in its order and A is empty: \<^verbatim>\<open>size\<close> on A is zero and \<^verbatim>\<open>empty\<close> is
  true. B followed by A is the former sequence, so no element is in both and none is
  lost. The same holds of move-assigning B from A when B's guard is free too, and the
  assignment returns B.
\<close>

theorem move_transfers_once:
  "a \<noteq> b \<Longrightarrow> \<not> mutex (h a) \<Longrightarrow>
   (\<exists>h'. move_construct h b a = Some h' \<and>
      data (h' b) = data (h a) \<and> data (h' a) = [] \<and>
      data (h' b) @ data (h' a) = data (h a) \<and>
      map_option fst (size_q (h' a)) = Some 0 \<and>
      map_option fst (empty (h' a)) = Some True) \<and>
   (\<not> mutex (h b) \<longrightarrow>
     (\<exists>h'. move_assign h b a = Some (h', b) \<and>
        data (h' b) = data (h a) \<and> data (h' a) = [] \<and>
        data (h' b) @ data (h' a) = data (h a) \<and>
        map_option fst (size_q (h' a)) = Some 0 \<and>
        map_option fst (empty (h' a)) = Some True))"
proof -
  assume ab: "a \<noteq> b" and free_a: "\<not> mutex (h a)"
  then have ba: "b \<noteq> a" by simp
  let ?src = "(h a)\<lparr>data := []\<rparr>"
  have src: "\<not> mutex ?src" "data ?src = []"
    using free_a by simp_all
  have obs: "map_option fst (size_q ?src) = Some 0" "map_option fst (empty ?src) = Some True"
    using src by (simp_all add: size_free empty_free)
  have "move_construct h b a =
          Some (h(b := \<lparr>data = data (h a), mutex = False\<rparr>, a := ?src))"
    using ba free_a by (rule move_construct_free)
  then have ctor: "\<exists>h'. move_construct h b a = Some h' \<and>
      data (h' b) = data (h a) \<and> data (h' a) = [] \<and>
      data (h' b) @ data (h' a) = data (h a) \<and>
      map_option fst (size_q (h' a)) = Some 0 \<and>
      map_option fst (empty (h' a)) = Some True"
    using ab obs by simp
  have "\<exists>h'. move_assign h b a = Some (h', b) \<and>
      data (h' b) = data (h a) \<and> data (h' a) = [] \<and>
      data (h' b) @ data (h' a) = data (h a) \<and>
      map_option fst (size_q (h' a)) = Some 0 \<and>
      map_option fst (empty (h' a)) = Some True" if free_b: "\<not> mutex (h b)"
  proof -
    have "move_assign h b a =
            Some (h(b := (h b)\<lparr>data := data (h a)\<rparr>, a := ?src), b)"
      using ba free_b free_a by (rule move_assign_free)
    then show ?thesis using ab obs by simp
  qed
  with ctor show ?thesis by blast
qed

theorem move_transfers_once_witness:
  "(0 :: addr) \<noteq> 1 \<and>
   \<not> mutex (((\<lambda>_. SpxQueue_default)(0 := \<lparr>data = [10, 20, 30 :: nat], mutex = False\<rparr>,
                1 := \<lparr>data = [90], mutex = False\<rparr>)) 0) \<and>
   \<not> mutex (((\<lambda>_. SpxQueue_default)(0 := \<lparr>data = [10, 20, 30 :: nat], mutex = False\<rparr>,
                1 := \<lparr>data = [90], mutex = False\<rparr>)) 1) \<and>
   map_option (\<lambda>h'. (data (h' 1), data (h' 0)))
     (move_construct ((\<lambda>_. SpxQueue_default)(0 := \<lparr>data = [10, 20, 30 :: nat], mutex = False\<rparr>,
                1 := \<lparr>data = [90], mutex = False\<rparr>)) 1 0)
     = Some ([10, 20, 30], []) \<and>
   map_option (\<lambda>(h', r). (data (h' 1), data (h' 0), r))
     (move_assign ((\<lambda>_. SpxQueue_default)(0 := \<lparr>data = [10, 20, 30 :: nat], mutex = False\<rparr>,
                1 := \<lparr>data = [90], mutex = False\<rparr>)) 1 0)
     = Some ([10, 20, 30], [], 1)"
proof -
  let ?h = "(\<lambda>_. SpxQueue_default)(0 := \<lparr>data = [10, 20, 30 :: nat], mutex = False\<rparr>,
                1 := \<lparr>data = [90], mutex = False\<rparr>)"
  have ne: "(0 :: addr) \<noteq> 1" and fa: "\<not> mutex (?h 0)" and fb: "\<not> mutex (?h 1)"
    by simp_all
  have ctor: "map_option (\<lambda>h'. (data (h' 1), data (h' 0))) (move_construct ?h 1 0)
      = Some ([10, 20, 30], [])"
    by (simp add: move_construct_def lock_both_def lock_def unlock_both_def unlock_def
        vector_move_assign_def SpxQueue_default_def Let_def)
  have asgn: "map_option (\<lambda>(h', r). (data (h' 1), data (h' 0), r)) (move_assign ?h 1 0)
      = Some ([10, 20, 30], [], 1)"
    by (simp add: move_assign_def lock_both_def lock_def unlock_both_def unlock_def
        vector_move_assign_def Let_def)
  show ?thesis
    using move_transfers_once [of 0 1 ?h] ctor asgn by simp
qed

text \<open>
  C9 (self move assignment): assigning an instance to itself takes the \<^verbatim>\<open>this != &other\<close>
  exit. It returns, whatever the state of the guard, since no guard is acquired; the
  store, and so the sequence, is unchanged; the result is the instance itself.
\<close>

theorem self_move_assign: "move_assign h a a = Some (h, a)"
  by (simp add: move_assign_def)

text \<open>
  C10 (the two observers agree): on any queue whose guard is free, \<^verbatim>\<open>empty\<close> and \<^verbatim>\<open>size\<close>
  both return, and \<^verbatim>\<open>empty\<close> returns true exactly when \<^verbatim>\<open>size\<close> returns zero.
\<close>

theorem empty_iff_size_zero:
  "\<not> mutex q \<Longrightarrow>
   \<exists>b n. map_option fst (empty q) = Some b \<and> map_option fst (size_q q) = Some n \<and>
         b = (n = 0)"
  by (simp add: empty_free size_free)

theorem empty_iff_size_zero_witness:
  "\<not> mutex \<lparr>data = [7 :: nat], mutex = False\<rparr> \<and>
   map_option fst (empty \<lparr>data = [7 :: nat], mutex = False\<rparr>) = Some False \<and>
   map_option fst (size_q \<lparr>data = [7 :: nat], mutex = False\<rparr>) = Some 1 \<and>
   \<not> mutex (SpxQueue_default :: nat SpxQueue) \<and>
   map_option fst (empty (SpxQueue_default :: nat SpxQueue)) = Some True \<and>
   map_option fst (size_q (SpxQueue_default :: nat SpxQueue)) = Some 0"
  using empty_iff_size_zero [of "\<lparr>data = [7 :: nat], mutex = False\<rparr>"]
    empty_iff_size_zero [of "SpxQueue_default :: nat SpxQueue"]
  by (simp add: SpxQueue_default_def empty_def size_q_def lock_def unlock_def)

end
